theory Spec2Isabelle
  imports Main
begin

section \<open>JavaScript strings\<close>

text \<open>
  A JavaScript string is a sequence of UTF-16 code units. The model keeps the code units
  as natural numbers, so that the whitespace \<open>String.prototype.trim\<close> removes (which
  reaches beyond ASCII) and the emoji of the response are what the program sees.
  \<open>str\<close> turns an ASCII literal of the theory into such a sequence.
\<close>

type_synonym jsstring = "nat list"

definition str :: "string \<Rightarrow> jsstring" where
  "str s = map of_char s"

text \<open>The character classes of the regular expressions of \<open>mcp-server-sdk.js\<close>.\<close>

definition is_alpha :: "nat \<Rightarrow> bool" where
  \<comment> \<open>\<open>[a-zA-Z]\<close>\<close>
  "is_alpha c = ((65 \<le> c \<and> c \<le> 90) \<or> (97 \<le> c \<and> c \<le> 122))"

definition is_tag_char :: "nat \<Rightarrow> bool" where
  \<comment> \<open>\<open>[a-zA-Z#]\<close>\<close>
  "is_tag_char c = (is_alpha c \<or> c = 35)"

definition is_digit :: "nat \<Rightarrow> bool" where
  \<comment> \<open>\<open>\d\<close>\<close>
  "is_digit c = (48 \<le> c \<and> c \<le> 57)"

definition is_line_terminator :: "nat \<Rightarrow> bool" where
  \<comment> \<open>LF, CR, LINE SEPARATOR, PARAGRAPH SEPARATOR\<close>
  "is_line_terminator c = (c = 10 \<or> c = 13 \<or> c = 8232 \<or> c = 8233)"

definition is_white_space :: "nat \<Rightarrow> bool" where
  \<comment> \<open>what \<open>trim\<close> strips: TAB, VT, FF, ZWNBSP, the space separators, the line terminators\<close>
  "is_white_space c =
     (c = 9 \<or> c = 11 \<or> c = 12 \<or> c = 32 \<or> c = 160 \<or> c = 5760 \<or> (8192 \<le> c \<and> c \<le> 8202)
      \<or> c = 8239 \<or> c = 8287 \<or> c = 12288 \<or> c = 65279 \<or> is_line_terminator c)"

definition trim :: "jsstring \<Rightarrow> jsstring" where
  \<comment> \<open>\<open>String.prototype.trim\<close>\<close>
  "trim s = rev (dropWhile is_white_space (rev (dropWhile is_white_space s)))"

fun split_on :: "nat \<Rightarrow> jsstring \<Rightarrow> jsstring list" where
  \<comment> \<open>\<open>s.split(d)\<close> for a separator of one code unit; the empty string gives one empty piece\<close>
  "split_on d [] = [[]]"
| "split_on d (c # cs) =
     (if c = d then [] # split_on d cs
      else (case split_on d cs of [] \<Rightarrow> [[c]] | l # ls \<Rightarrow> (c # l) # ls))"

fun join :: "jsstring \<Rightarrow> jsstring list \<Rightarrow> jsstring" where
  \<comment> \<open>\<open>xs.join(sep)\<close>\<close>
  "join sep [] = []"
| "join sep [x] = x"
| "join sep (x # y # ys) = x @ sep @ join sep (y # ys)"

definition starts_with :: "jsstring \<Rightarrow> jsstring \<Rightarrow> bool" where
  \<comment> \<open>\<open>s.startsWith(p)\<close>\<close>
  "starts_with s p = (take (length p) s = p)"

section \<open>Response Sanitizer: cleanCodeResponse\<close>

definition fence :: jsstring where
  \<comment> \<open>three backticks\<close>
  "fence = [96, 96, 96]"

fun contains_fence :: "jsstring \<Rightarrow> bool" where
  "contains_fence [] = False"
| "contains_fence (c # cs) = (starts_with (c # cs) fence \<or> contains_fence cs)"

fun split_fence :: "jsstring \<Rightarrow> (jsstring \<times> jsstring) option" where
  \<comment> \<open>the text before the leftmost fence and the text after it\<close>
  "split_fence [] = None"
| "split_fence (c # cs) =
     (if starts_with (c # cs) fence then Some ([], drop 2 cs)
      else (case split_fence cs of None \<Rightarrow> None | Some (b, a) \<Rightarrow> Some (c # b, a)))"

definition skip_newline :: "jsstring \<Rightarrow> jsstring" where
  \<comment> \<open>\<open>\n?\<close>, greedy\<close>
  "skip_newline s = (case s of [] \<Rightarrow> [] | c # cs \<Rightarrow> if c = 10 then cs else s)"

definition skip_tag :: "jsstring \<Rightarrow> jsstring" where
  \<comment> \<open>\<open>[a-zA-Z]*\n?\<close>, both greedy\<close>
  "skip_tag s = skip_newline (dropWhile is_alpha s)"

text \<open>
  One call of \<open>codeBlockRegex.exec\<close> on the text that starts at \<open>lastIndex\<close>, for the
  expression \<^verbatim>\<open>/```[a-zA-Z]*\n?([\s\S]*?)```/g\<close>: the first capture group and the text
  after the match. The match starts at the leftmost fence; the letters and the newline
  are taken greedily, and the lazy group ends at the next fence. Backtracking finds no
  other match: giving back letters or the newline only lengthens the group, which holds
  any code unit, and a fence found from a later start would also close the leftmost one
  (\<open>search_block_eq_exec\<close> below).
\<close>

definition codeBlockRegex_exec :: "jsstring \<Rightarrow> (jsstring \<times> jsstring) option" where
  "codeBlockRegex_exec s =
     (case split_fence s of None \<Rightarrow> None | Some (before, r) \<Rightarrow> split_fence (skip_tag r))"

text \<open>
  The same expression as a backtracking matcher runs it: from every start position in
  turn (\<open>search_block\<close>); at a fence (\<open>match_block_at\<close>) with the longest run of letters
  first, then one letter fewer down to none (\<open>match_letters_body\<close>); for each with the
  newline taken first and then not taken (\<open>match_newline_body\<close>); the lazy group followed
  by the closing fence is the text up to the next fence.
\<close>

definition match_newline_body :: "jsstring \<Rightarrow> (jsstring \<times> jsstring) option" where
  "match_newline_body s =
     (case s of
        [] \<Rightarrow> split_fence s
      | c # cs \<Rightarrow>
          if c = 10 then (case split_fence cs of Some m \<Rightarrow> Some m | None \<Rightarrow> split_fence s)
          else split_fence s)"

fun match_letters_body :: "nat \<Rightarrow> jsstring \<Rightarrow> (jsstring \<times> jsstring) option" where
  "match_letters_body 0 s = match_newline_body s"
| "match_letters_body (Suc k) s =
     (case match_newline_body (drop (Suc k) s) of
        Some m \<Rightarrow> Some m
      | None \<Rightarrow> match_letters_body k s)"

definition match_block_at :: "jsstring \<Rightarrow> (jsstring \<times> jsstring) option" where
  "match_block_at s =
     (if starts_with s fence
      then match_letters_body (length (takeWhile is_alpha (drop 3 s))) (drop 3 s)
      else None)"

fun search_block :: "jsstring \<Rightarrow> (jsstring \<times> jsstring) option" where
  "search_block [] = match_block_at []"
| "search_block (c # cs) =
     (case match_block_at (c # cs) of Some m \<Rightarrow> Some m | None \<Rightarrow> search_block cs)"

lemma starts_with_length: "starts_with s p \<Longrightarrow> length p \<le> length s"
proof -
  assume "starts_with s p"
  then have "length (take (length p) s) = length p"
    by (simp add: starts_with_def)
  then show ?thesis by simp
qed

lemma split_fence_length:
  "split_fence s = Some (b, a) \<Longrightarrow> length b + 3 + length a = length s"
proof (induction s arbitrary: b a)
  case Nil
  then show ?case by simp
next
  case (Cons c cs)
  show ?case
  proof (cases "starts_with (c # cs) fence")
    case True
    then have "3 \<le> length (c # cs)"
      using starts_with_length [of "c # cs" fence] by (simp add: fence_def)
    with True Cons.prems show ?thesis by auto
  next
    case False
    with Cons show ?thesis by (auto split: option.splits)
  qed
qed

lemma skip_newline_length: "length (skip_newline s) \<le> length s"
  by (simp add: skip_newline_def split: list.splits)

lemma skip_tag_length: "length (skip_tag s) \<le> length s"
  using skip_newline_length [of "dropWhile is_alpha s"] length_dropWhile_le [of is_alpha s]
  by (simp add: skip_tag_def)

lemma codeBlockRegex_exec_length:
  assumes "codeBlockRegex_exec s = Some (body, rest)"
  shows "length rest < length s"
proof -
  from assms obtain before r where 1: "split_fence s = Some (before, r)"
    and 2: "split_fence (skip_tag r) = Some (body, rest)"
    by (auto simp: codeBlockRegex_exec_def split: option.splits)
  from split_fence_length [OF 1] split_fence_length [OF 2] skip_tag_length [of r]
  show ?thesis by simp
qed

text \<open>The \<open>while\<close> loop of lines 45 to 47: every match, trimmed, in order.\<close>

function codeBlocks :: "jsstring \<Rightarrow> jsstring list" where
  "codeBlocks s =
     (case codeBlockRegex_exec s of
        None \<Rightarrow> []
      | Some (body, rest) \<Rightarrow> trim body # codeBlocks rest)"
  by pat_completeness auto
termination
  by (relation "measure length") (auto simp: codeBlockRegex_exec_length)

declare codeBlocks.simps [simp del]

text \<open>\<^verbatim>\<open>.replace(/```[a-zA-Z]*\n?/g, '')\<close> and \<^verbatim>\<open>.replace(/```\n?/g, '')\<close>.\<close>

function remove_tagged_fences :: "jsstring \<Rightarrow> jsstring" where
  "remove_tagged_fences [] = []"
| "remove_tagged_fences (c # cs) =
     (if starts_with (c # cs) fence then remove_tagged_fences (skip_tag (drop 2 cs))
      else c # remove_tagged_fences cs)"
  by pat_completeness auto
termination
proof (relation "measure length")
  fix c :: nat and cs :: jsstring
  show "(skip_tag (drop 2 cs), c # cs) \<in> measure length"
    using skip_tag_length [of "drop 2 cs"] by simp
qed auto

function remove_fences :: "jsstring \<Rightarrow> jsstring" where
  "remove_fences [] = []"
| "remove_fences (c # cs) =
     (if starts_with (c # cs) fence then remove_fences (skip_newline (drop 2 cs))
      else c # remove_fences cs)"
  by pat_completeness auto
termination
proof (relation "measure length")
  fix c :: nat and cs :: jsstring
  show "(skip_newline (drop 2 cs), c # cs) \<in> measure length"
    using skip_newline_length [of "drop 2 cs"] by simp
qed auto

definition is_language_tag :: "jsstring \<Rightarrow> bool" where
  \<comment> \<open>\<open>/^[a-zA-Z#]+$/.test(s)\<close>\<close>
  "is_language_tag s = (s \<noteq> [] \<and> list_all is_tag_char s)"

text \<open>
  \<open>cleanCodeResponse\<close>, lines 37 to 76. \<open>None\<close> is \<open>null\<close> or \<open>undefined\<close>; these and
  the empty string are falsy and returned as they are.
\<close>

definition cleanCodeResponse :: "jsstring option \<Rightarrow> jsstring option" where
  "cleanCodeResponse response =
     (case response of
        None \<Rightarrow> None
      | Some r \<Rightarrow>
          if r = [] then Some []
          else
            (case codeBlocks r of
               code # others \<Rightarrow>
                 (let lines = split_on 10 code in
                  if length lines > 0 \<and> is_language_tag (trim (hd lines))
                  then Some (trim (join [10] (tl lines)))
                  else Some code)
             | [] \<Rightarrow>
                 (let cleaned = trim (remove_fences (remove_tagged_fences r));
                      lines = split_on 10 cleaned
                  in if length lines > 0 \<and> is_language_tag (trim (hd lines))
                     then Some (trim (join [10] (tl lines)))
                     else Some cleaned)))"

text \<open>
  A text that a fence placed after it ends exactly at its last code unit: it holds no
  fence, and no fence begins inside it when backticks follow (it does not end in a
  backtick).
\<close>

definition delimited :: "jsstring \<Rightarrow> bool" where
  "delimited s = (\<not> contains_fence (s @ [96, 96]))"

text \<open>
  The body of a fenced block as the specification words it: the text between the fences,
  without its first line when that line is a bare language tag, an alphabetic token with
  nothing else on the line.
\<close>

definition spec_block_body :: "jsstring \<Rightarrow> jsstring" where
  "spec_block_body B =
     (let lines = split_on 10 B
      in if hd lines \<noteq> [] \<and> list_all is_alpha (hd lines) then join [10] (tl lines) else B)"

section \<open>Numbers in text\<close>

text \<open>
  Template literals print a non-negative integer in decimal, and \<open>parseInt\<close> reads the
  digits a \<^verbatim>\<open>(\d+)\<close> group captured. JavaScript numbers are doubles: both are exact for
  integers below \<open>2 ^ 53\<close>, which is where the theorems on hunk headers use them.
\<close>

fun show_nat :: "nat \<Rightarrow> jsstring" where
  "show_nat n = (if n < 10 then [48 + n] else show_nat (n div 10) @ [48 + n mod 10])"

declare show_nat.simps [simp del]

definition parseInt :: "jsstring \<Rightarrow> nat" where
  \<comment> \<open>on a non-empty run of decimal digits\<close>
  "parseInt ds = foldl (\<lambda>a c. 10 * a + (c - 48)) 0 ds"

section \<open>Paths (Node's \<open>path\<close> module on POSIX)\<close>

text \<open>
  \<open>path.isAbsolute\<close>, \<open>path.join\<close>, \<open>path.resolve\<close> and \<open>path.extname\<close> belong to the
  runtime, not to the repository; they are written here as the runtime's POSIX
  implementation computes them. The slash is code unit 47, the dot 46.
\<close>

definition isAbsolute :: "jsstring \<Rightarrow> bool" where
  "isAbsolute p = (case p of [] \<Rightarrow> False | c # cs \<Rightarrow> c = 47)"

fun normalize_segments :: "bool \<Rightarrow> jsstring list \<Rightarrow> jsstring list \<Rightarrow> jsstring list" where
  \<comment> \<open>\<open>allowAboveRoot\<close>, the segments kept so far (last first), the segments to read\<close>
  "normalize_segments up acc [] = rev acc"
| "normalize_segments up acc (s # ss) =
     (if s = [] \<or> s = [46] then normalize_segments up acc ss
      else if s = [46, 46] then
        (case acc of
           [] \<Rightarrow> normalize_segments up (if up then [[46, 46]] else []) ss
         | a # as \<Rightarrow>
             if a = [46, 46] then normalize_segments up ([46, 46] # acc) ss
             else normalize_segments up as ss)
      else normalize_segments up (s # acc) ss)"

definition normalizeString :: "jsstring \<Rightarrow> bool \<Rightarrow> jsstring" where
  "normalizeString p up = join [47] (normalize_segments up [] (split_on 47 p))"

definition ends_with_slash :: "jsstring \<Rightarrow> bool" where
  "ends_with_slash p = (p \<noteq> [] \<and> last p = 47)"

definition path_normalize :: "jsstring \<Rightarrow> jsstring" where
  "path_normalize p =
     (if p = [] then [46]
      else
        (let n = normalizeString p (\<not> isAbsolute p) in
         if n = [] then
           (if isAbsolute p then [47] else if ends_with_slash p then [46, 47] else [46])
         else (if isAbsolute p then [47] else []) @ n @ (if ends_with_slash p then [47] else [])))"

definition path_join :: "jsstring \<Rightarrow> jsstring \<Rightarrow> jsstring" where
  \<comment> \<open>\<open>path.join(a, b)\<close>: empty arguments are left out\<close>
  "path_join a b =
     (if a = [] then path_normalize b
      else if b = [] then path_normalize a
      else path_normalize (a @ [47] @ b))"

definition path_resolve :: "jsstring \<Rightarrow> jsstring \<Rightarrow> jsstring" where
  \<comment> \<open>\<open>path.resolve(p)\<close> in the working directory \<open>wd\<close>, which is absolute\<close>
  "path_resolve wd p =
     (let full = (if isAbsolute p then p else if p = [] then wd else wd @ [47] @ p)
      in [47] @ normalizeString full False)"

definition extname :: "jsstring \<Rightarrow> jsstring" where
  "extname p =
     (let base = last (split_on 47 (rev (dropWhile (\<lambda>c. c = 47) (rev p))));
          ext = rev (takeWhile (\<lambda>c. c \<noteq> 46) (rev base));
          stem = rev (drop 1 (dropWhile (\<lambda>c. c \<noteq> 46) (rev base)))
      in if stem = [] \<or> base = [46, 46] \<or> 46 \<notin> set base then [] else 46 # ext)"

definition toLowerCase :: "jsstring \<Rightarrow> jsstring" where
  \<comment> \<open>exact on ASCII. The only other code unit that lowers to ASCII is KELVIN SIGN; the
      results are only looked up in a table of ASCII keys or printed into the prompt\<close>
  "toLowerCase s = map (\<lambda>c. if 65 \<le> c \<and> c \<le> 90 then c + 32 else if c = 8490 then 107 else c) s"

section \<open>getLanguageFromFile\<close>

definition languageMap :: "(jsstring \<times> jsstring) list" where
  "languageMap =
     [(str ''.py'', str ''python''), (str ''.js'', str ''javascript''),
      (str ''.ts'', str ''typescript''), (str ''.tsx'', str ''typescript''),
      (str ''.jsx'', str ''javascript''), (str ''.java'', str ''java''),
      (str ''.cpp'', str ''cpp''), (str ''.c'', str ''c''), (str ''.cs'', str ''csharp''),
      (str ''.php'', str ''php''), (str ''.rb'', str ''ruby''), (str ''.go'', str ''go''),
      (str ''.rs'', str ''rust''), (str ''.swift'', str ''swift''), (str ''.kt'', str ''kotlin''),
      (str ''.scala'', str ''scala''), (str ''.sh'', str ''bash''), (str ''.sql'', str ''sql''),
      (str ''.html'', str ''html''), (str ''.css'', str ''css''), (str ''.scss'', str ''scss''),
      (str ''.less'', str ''less''), (str ''.json'', str ''json''), (str ''.xml'', str ''xml''),
      (str ''.yaml'', str ''yaml''), (str ''.yml'', str ''yaml'')]"

definition getLanguageFromFile :: "jsstring \<Rightarrow> jsstring option \<Rightarrow> jsstring" where
  "getLanguageFromFile filePath explicitLanguage =
     (case explicitLanguage of
        Some l \<Rightarrow>
          if l \<noteq> [] then toLowerCase l
          else (case map_of languageMap (toLowerCase (extname filePath)) of
                  Some v \<Rightarrow> v | None \<Rightarrow> str ''text'')
      | None \<Rightarrow>
          (case map_of languageMap (toLowerCase (extname filePath)) of
             Some v \<Rightarrow> v | None \<Rightarrow> str ''text''))"

section \<open>Diff Synthesizer: generateGitDiff\<close>

definition falsy :: "jsstring option \<Rightarrow> bool" where
  \<comment> \<open>\<open>!s\<close> for a string, \<open>null\<close> or \<open>undefined\<close>\<close>
  "falsy s = (case s of None \<Rightarrow> True | Some t \<Rightarrow> t = [])"

definition fileName_of :: "jsstring \<Rightarrow> jsstring" where
  \<comment> \<open>\<open>filePath.split('/').pop()\<close>\<close>
  "fileName_of filePath = last (split_on 47 filePath)"

text \<open>
  The hunk header expression is read greedily: each start takes all digits, the comma is
  taken when it is there, each count takes all digits that follow. Backtracking finds
  no match where this reading fails, since the text after a range has to start with a
  space, which is neither a digit nor a comma.
\<close>

definition match_range :: "jsstring \<Rightarrow> (jsstring \<times> jsstring option \<times> jsstring) option" where
  \<comment> \<open>\<^verbatim>\<open>(\d+),?(\d+)?\<close> at the head of the text: both groups and the text that follows\<close>
  "match_range s =
     (let start = takeWhile is_digit s;
          r = dropWhile is_digit s;
          r' = (case r of [] \<Rightarrow> [] | c # cs \<Rightarrow> if c = 44 then cs else r);
          cnt = takeWhile is_digit r'
      in if start = [] then None
         else Some (start, if cnt = [] then None else Some cnt, dropWhile is_digit r'))"

definition match_hunk_header ::
  "jsstring \<Rightarrow> (jsstring \<times> jsstring option \<times> jsstring \<times> jsstring option) option" where
  \<comment> \<open>\<^verbatim>\<open>/^@@ -(\d+),?(\d+)? \+(\d+),?(\d+)? @@$/\<close> on one line: the four groups\<close>
  "match_hunk_header line =
     (if starts_with line (str ''@@ -'') then
        (case match_range (drop 4 line) of
           None \<Rightarrow> None
         | Some (oldStart, oldCount, r) \<Rightarrow>
             if starts_with r (str '' +'') then
               (case match_range (drop 2 r) of
                  None \<Rightarrow> None
                | Some (newStart, newCount, r') \<Rightarrow>
                    if r' = str '' @@'' then Some (oldStart, oldCount, newStart, newCount)
                    else None)
             else None)
      else None)"

definition fix_hunk_header :: "jsstring \<Rightarrow> jsstring" where
  \<comment> \<open>lines 148 to 159: what is pushed to \<open>cleanedLines\<close> for one line\<close>
  "fix_hunk_header line =
     (case match_hunk_header line of
        None \<Rightarrow> line
      | Some (oldStart, oldCount, newStart, newCount) \<Rightarrow>
          (let fixedOldStart = parseInt oldStart + 4;
               fixedNewStart = parseInt newStart + 4;
               oldCountStr = (case oldCount of None \<Rightarrow> [] | Some c \<Rightarrow> 44 # c);
               newCountStr = (case newCount of None \<Rightarrow> [] | Some c \<Rightarrow> 44 # c)
           in str ''@@ -'' @ show_nat fixedOldStart @ oldCountStr @ str '' +''
              @ show_nat fixedNewStart @ newCountStr @ str '' @@''))"

text \<open>
  The header line of a hunk of a unified diff, \<^verbatim>\<open>@@ -a,c +b,d @@\<close>: the start and the
  line count on the old and on the new side; a count may be left out.
\<close>

definition count_suffix :: "nat option \<Rightarrow> jsstring" where
  "count_suffix c = (case c of None \<Rightarrow> [] | Some k \<Rightarrow> 44 # show_nat k)"

definition hunk_header :: "nat \<Rightarrow> nat option \<Rightarrow> nat \<Rightarrow> nat option \<Rightarrow> jsstring" where
  "hunk_header a c b d =
     str ''@@ -'' @ show_nat a @ count_suffix c @ str '' +'' @ show_nat b @ count_suffix d
     @ str '' @@''"

text \<open>
  \<open>createPatch\<close> comes from the package \<open>diff\<close>, which is not part of the repository: it is
  a parameter, called with the file name, both contents and both headers.
\<close>

type_synonym patcher = "jsstring \<Rightarrow> jsstring \<Rightarrow> jsstring \<Rightarrow> jsstring \<Rightarrow> jsstring \<Rightarrow> jsstring"

definition generateGitDiff ::
  "patcher \<Rightarrow> jsstring option \<Rightarrow> jsstring option \<Rightarrow> jsstring \<Rightarrow> jsstring option" where
  "generateGitDiff createPatch oldContent newContent filePath =
     (case newContent of
        None \<Rightarrow> None
      | Some new \<Rightarrow>
          if new = [] then None
          else
          (case (if falsy oldContent then None else oldContent) of
             None \<Rightarrow>
            (let newLines = split_on 10 new;
                 fileName = fileName_of filePath;
                 gitDiff =
                   [str ''diff --git a/'' @ fileName @ str '' b/'' @ fileName,
                    str ''new file mode 100644'',
                    str ''--- /dev/null'',
                    str ''+++ b/'' @ fileName,
                    str ''@@ -0,0 +1,'' @ show_nat (length newLines) @ str '' @@'']
             in Some (join [10] (gitDiff @ map (\<lambda>line. 43 # line) newLines)))
           | Some old \<Rightarrow>
            (let fileName = fileName_of filePath;
                 patch = createPatch fileName old new
                           (str ''a/'' @ fileName) (str ''b/'' @ fileName);
                 lines = split_on 10 patch;
                 kept = (if starts_with (hd lines) (str ''diff --git'') then tl lines else lines)
             in Some (join [10] (map fix_hunk_header kept)))))"

text \<open>
  The lines of the underlying patch that the loop of lines 139 to 160 goes through: all
  lines of what \<open>createPatch\<close> returned, but a first line that starts with \<open>diff --git\<close>.
\<close>

definition patch_lines :: "patcher \<Rightarrow> jsstring \<Rightarrow> jsstring \<Rightarrow> jsstring \<Rightarrow> jsstring list" where
  "patch_lines cp old new filePath =
     (let fileName = fileName_of filePath;
          lines = split_on 10 (cp fileName old new (str ''a/'' @ fileName) (str ''b/'' @ fileName))
      in if starts_with (hd lines) (str ''diff --git'') then tl lines else lines)"

text \<open>
  Two patches in the format the package prints, for the examples below: the header
  alone, which is what \<open>createPatch\<close> returns for equal contents, and the header with the
  one hunk that turns the lines \<open>a\<close>, \<open>b\<close>, \<open>c\<close> into \<open>a\<close>, \<open>b\<close>, \<open>d\<close>.
\<close>

definition patch_header :: "jsstring \<Rightarrow> jsstring \<Rightarrow> jsstring \<Rightarrow> jsstring" where
  "patch_header fileName oldHeader newHeader =
     str ''Index: '' @ fileName @ [10] @ str ''==================================================================='' @ [10]
     @ str ''--- '' @ fileName @ [9] @ oldHeader @ [10]
     @ str ''+++ '' @ fileName @ [9] @ newHeader @ [10]"

definition unchanged_patch :: patcher where
  "unchanged_patch fileName old new oldHeader newHeader = patch_header fileName oldHeader newHeader"

definition one_hunk_patch :: patcher where
  "one_hunk_patch fileName old new oldHeader newHeader =
     patch_header fileName oldHeader newHeader
     @ str ''@@ -1,3 +1,3 @@\<newline> a\<newline> b\<newline>-c\<newline>+d\<newline>''"





section \<open>The response's presentation\<close>

text \<open>
  \<^verbatim>\<open>s.replace(/^pat/gm, rep)\<close> for a literal \<open>pat\<close>: with the flag \<open>m\<close> the anchor holds
  at the start of the text and after every line terminator. The flag of the function
  says whether the position read next is such a start; the patterns of the program end
  in a space, so the position after a match is none.
\<close>

fun replace_at_line_starts :: "jsstring \<Rightarrow> jsstring \<Rightarrow> bool \<Rightarrow> jsstring \<Rightarrow> jsstring" where
  "replace_at_line_starts pat rep at_start [] = []"
| "replace_at_line_starts pat rep at_start (c # cs) =
     (if at_start \<and> pat \<noteq> [] \<and> starts_with (c # cs) pat
      then rep @ replace_at_line_starts pat rep False (drop (length pat - 1) cs)
      else c # replace_at_line_starts pat rep (is_line_terminator c) cs)"

definition cursorFriendly :: "jsstring \<Rightarrow> jsstring" where
  \<comment> \<open>lines 675 to 679 and 691 to 695; the glyphs are U+1F50D, U+274C and U+2705\<close>
  "cursorFriendly d =
     replace_at_line_starts (str ''  '') (str ''   '') True
       (replace_at_line_starts (str ''+ '') [9989, 32] True
         (replace_at_line_starts (str ''- '') [10060, 32] True
           (replace_at_line_starts (str ''@@ '') [55357, 56589, 32] True d)))"

definition diff_block :: "jsstring \<Rightarrow> jsstring" where
  \<comment> \<open>the text of the content item: the diff inside a fenced \<open>diff\<close> block\<close>
  "diff_block d = fence @ str ''diff'' @ [10] @ cursorFriendly d @ [10] @ fence"




section \<open>Files, providers and the trace of a call\<close>

text \<open>
  What a call does outside the process is written into the state: the files, and a trace
  of every file read, directory creation, file write and provider request, in order.
  What the outside answers is in the environment: the configuration read at startup, the
  response of each provider to a prompt (for OpenRouter also by the number of requests
  already sent to it in the call), and the failures of the file system. Every request is
  answered: a request that never settles, which would keep the call waiting, is not
  part of the model.
\<close>

datatype fs_entry =
    File jsstring
  | Missing \<comment> \<open>reading fails with code \<open>ENOENT\<close>\<close>
  | Unreadable jsstring \<comment> \<open>reading fails with another code and this message\<close>

datatype provider = Cerebras | OpenRouter

datatype event =
    ReadFile jsstring
  | MakeDirFor jsstring \<comment> \<open>\<open>fs.mkdir(path.dirname(p), { recursive: true })\<close>\<close>
  | WriteFile jsstring jsstring
  | Request provider jsstring \<comment> \<open>the user message of the request\<close>

record world =
  files :: "jsstring \<Rightarrow> fs_entry"
  trace :: "event list"

datatype api_result =
    Completion "jsstring option" \<comment> \<open>status 200 with \<open>choices[0].message.content\<close>\<close>
  | Failure jsstring \<comment> \<open>the message the promise is rejected with\<close>

record env =
  cerebrasApiKey :: "jsstring option"
  openRouterApiKey :: "jsstring option"
  env_HOME :: "jsstring option"
  env_cwd :: jsstring
  cerebras_api :: "jsstring \<Rightarrow> api_result"
  openrouter_api :: "nat \<Rightarrow> jsstring \<Rightarrow> api_result"
  mkdir_failure :: "jsstring \<Rightarrow> jsstring option"
  writeFile_failure :: "jsstring \<Rightarrow> jsstring option"
  invalid_data_message :: jsstring
  createPatch :: patcher

definition log_event :: "event \<Rightarrow> world \<Rightarrow> world" where
  "log_event ev w = w\<lparr>trace := trace w @ [ev]\<rparr>"

fun expand_replacement :: "jsstring \<Rightarrow> jsstring \<Rightarrow> jsstring \<Rightarrow> jsstring \<Rightarrow> jsstring" where
  \<comment> \<open>the dollar patterns of a replacement string, for a pattern without groups: the
      matched text, the text before it, the text after it, the replacement\<close>
  "expand_replacement m b a (c # d # r) =
     (if c = 36 \<and> d = 36 then 36 # expand_replacement m b a r
      else if c = 36 \<and> d = 38 then m @ expand_replacement m b a r
      else if c = 36 \<and> d = 96 then b @ expand_replacement m b a r
      else if c = 36 \<and> d = 39 then a @ expand_replacement m b a r
      else c # expand_replacement m b a (d # r))"
| "expand_replacement m b a r = r"

definition replace_first :: "nat \<Rightarrow> jsstring option \<Rightarrow> jsstring \<Rightarrow> jsstring" where
  \<comment> \<open>\<open>s.replace(c, rep)\<close> for a pattern of one code unit; an undefined replacement is
      the text \<open>undefined\<close>\<close>
  "replace_first c rep s =
     (let b = takeWhile (\<lambda>x. x \<noteq> c) s;
          r = dropWhile (\<lambda>x. x \<noteq> c) s;
          rep' = (case rep of None \<Rightarrow> str ''undefined'' | Some t \<Rightarrow> t)
      in case r of [] \<Rightarrow> s | x # a \<Rightarrow> b @ expand_replacement [c] b a rep' @ a)"

text \<open>The path normalization of \<open>readFileContent\<close>, lines 209 to 225.\<close>

definition readFileContent_path :: "env \<Rightarrow> jsstring \<Rightarrow> jsstring" where
  "readFileContent_path e filePath =
     (if isAbsolute filePath then filePath
      else if starts_with filePath [126] then replace_first 126 (env_HOME e) filePath
      else path_join (env_cwd e) filePath)"

text \<open>The path normalization of \<open>writeFileContent\<close>, lines 241 to 257.\<close>

definition writeFileContent_path :: "env \<Rightarrow> jsstring \<Rightarrow> jsstring" where
  "writeFileContent_path e filePath =
     (if isAbsolute filePath then filePath
      else if starts_with filePath [126] then replace_first 126 (env_HOME e) filePath
      else path_join (env_cwd e) filePath)"

text \<open>
  A result is \<open>Inl\<close> the message of the error thrown, or \<open>Inr\<close> the value returned.
  \<open>readFileContent\<close> returns \<open>null\<close> (\<open>None\<close>) for a file that does not exist.
\<close>

definition readFileContent :: "env \<Rightarrow> world \<Rightarrow> jsstring \<Rightarrow> world \<times> (jsstring + jsstring option)" where
  "readFileContent e w filePath =
     (let absolutePath = readFileContent_path e filePath;
          w' = log_event (ReadFile absolutePath) w
      in case files w absolutePath of
           File content \<Rightarrow> (w', Inr (Some content))
         | Missing \<Rightarrow> (w', Inr None)
         | Unreadable msg \<Rightarrow>
             (w', Inl (str ''Failed to read file '' @ filePath @ str '': '' @ msg)))"

text \<open>
  \<open>writeFileContent\<close>: the directory is made first; \<open>fs.writeFile\<close> refuses data that is
  \<open>null\<close> or \<open>undefined\<close> with a type error before it touches the file.
\<close>

definition writeFileContent ::
  "env \<Rightarrow> world \<Rightarrow> jsstring \<Rightarrow> jsstring option \<Rightarrow> world \<times> (jsstring + bool)" where
  "writeFileContent e w filePath content =
     (let absolutePath = writeFileContent_path e filePath;
          failed = (\<lambda>msg. Inl (str ''Failed to write file '' @ filePath @ str '': '' @ msg));
          w1 = log_event (MakeDirFor absolutePath) w
      in case mkdir_failure e absolutePath of
           Some msg \<Rightarrow> (w1, failed msg)
         | None \<Rightarrow>
             (case content of
                None \<Rightarrow> (w1, failed (invalid_data_message e))
              | Some c \<Rightarrow>
                  (case writeFile_failure e absolutePath of
                     Some msg \<Rightarrow> (w1, failed msg)
                   | None \<Rightarrow>
                       (log_event (WriteFile absolutePath c)
                          (w1\<lparr>files := (files w1)(absolutePath := File c)\<rparr>),
                        Inr True))))"

section \<open>Provider Orchestrator: callOpenRouter and callCerebras\<close>

text \<open>The loop over the filtered context files, lines 336 to 346 and 464 to 474.\<close>

fun read_context_files :: "env \<Rightarrow> world \<Rightarrow> jsstring list \<Rightarrow> jsstring \<Rightarrow> world \<times> jsstring" where
  "read_context_files e w [] contextContent = (w, contextContent)"
| "read_context_files e w (contextFile # rest) contextContent =
     (case readFileContent e w contextFile of
        (w', Inr (Some content)) \<Rightarrow>
          if content \<noteq> [] then
            read_context_files e w' rest
              (contextContent @ [10] @ str ''File: '' @ contextFile @ [10] @ fence
               @ getLanguageFromFile contextFile None @ [10] @ content @ [10] @ fence @ [10])
          else read_context_files e w' rest contextContent
      | (w', Inr None) \<Rightarrow> read_context_files e w' rest contextContent
      | (w', Inl msg) \<Rightarrow> read_context_files e w' rest contextContent)"

definition filter_context_files :: "env \<Rightarrow> jsstring \<Rightarrow> jsstring list \<Rightarrow> jsstring list" where
  \<comment> \<open>lines 328 to 332 and 456 to 460\<close>
  "filter_context_files e outputFile contextFiles =
     filter (\<lambda>file. path_resolve (env_cwd e) file \<noteq> path_resolve (env_cwd e) outputFile)
       contextFiles"

text \<open>
  The user message, built by the same statements in \<open>callOpenRouter\<close> (lines 320 to 359)
  and in \<open>callCerebras\<close> (lines 448 to 487). It fails when the output file cannot be read.
\<close>

definition assemble_prompt ::
  "env \<Rightarrow> world \<Rightarrow> jsstring \<Rightarrow> jsstring \<Rightarrow> jsstring \<Rightarrow> jsstring option \<Rightarrow> jsstring list
     \<Rightarrow> world \<times> (jsstring + jsstring)" where
  "assemble_prompt e w prompt context outputFile language contextFiles =
     (let detectedLanguage = getLanguageFromFile outputFile language;
          fullPrompt = str ''Generate '' @ detectedLanguage @ str '' code for: '' @ prompt;
          filteredContextFiles = filter_context_files e outputFile contextFiles;
          (w1, fullPrompt1) =
            (if contextFiles \<noteq> [] \<and> filteredContextFiles \<noteq> [] then
               (case read_context_files e w filteredContextFiles (str ''Context Files:'' @ [10]) of
                  (w', contextContent) \<Rightarrow> (w', contextContent @ [10] @ fullPrompt))
             else (w, fullPrompt));
          fullPrompt2 =
            (if context \<noteq> [] then str ''Context: '' @ context @ [10, 10] @ fullPrompt1
             else fullPrompt1)
      in case readFileContent e w1 outputFile of
           (w2, Inl msg) \<Rightarrow> (w2, Inl msg)
         | (w2, Inr existingContent) \<Rightarrow>
             (case (if falsy existingContent then None else existingContent) of
                None \<Rightarrow> (w2, Inr fullPrompt2)
              | Some existing \<Rightarrow>
                  (w2, Inr (str ''Existing file content:'' @ [10] @ fence @ detectedLanguage @ [10]
                            @ existing @ [10] @ fence @ [10, 10] @ fullPrompt2))))"

definition openrouter_requests :: "world \<Rightarrow> nat" where
  "openrouter_requests w = length (filter (\<lambda>ev. case ev of Request OpenRouter q \<Rightarrow> True | _ \<Rightarrow> False) (trace w))"

text \<open>
  \<open>callOpenRouter\<close>, lines 313 to 437. An error thrown before the request is wrapped by
  the \<open>catch\<close> of line 434; the promise of the request is returned without \<open>await\<close>, so its
  rejection reaches the caller as it is.
\<close>

definition callOpenRouter ::
  "env \<Rightarrow> world \<Rightarrow> jsstring \<Rightarrow> jsstring \<Rightarrow> jsstring \<Rightarrow> jsstring option \<Rightarrow> jsstring list
     \<Rightarrow> world \<times> (jsstring + jsstring option)" where
  "callOpenRouter e w prompt context outputFile language contextFiles =
     (if falsy (openRouterApiKey e) then
        (w, Inl (str ''OpenRouter API call failed: ''
                 @ str ''No OpenRouter API key available. Set OPENROUTER_API_KEY environment variable.''))
      else
        (case assemble_prompt e w prompt context outputFile language contextFiles of
           (w1, Inl msg) \<Rightarrow> (w1, Inl (str ''OpenRouter API call failed: '' @ msg))
         | (w1, Inr fullPrompt) \<Rightarrow>
             (let w2 = log_event (Request OpenRouter fullPrompt) w1
              in case openrouter_api e (openrouter_requests w1) fullPrompt of
                   Completion rawContent \<Rightarrow> (w2, Inr (cleanCodeResponse rawContent))
                 | Failure msg \<Rightarrow> (w2, Inl msg))))"

text \<open>
  \<open>callCerebras\<close>, lines 440 to 595. \<open>attempt\<close> is the body of the outer \<open>try\<close>, the inner
  \<open>try\<close> and its \<open>catch\<close> (lines 510 to 578) included: what that \<open>catch\<close> throws is thrown
  inside the outer \<open>try\<close>. The last \<open>case\<close> is the outer \<open>catch\<close> (lines 579 to 594).
\<close>

definition callCerebras ::
  "env \<Rightarrow> world \<Rightarrow> jsstring \<Rightarrow> jsstring \<Rightarrow> jsstring \<Rightarrow> jsstring option \<Rightarrow> jsstring list
     \<Rightarrow> world \<times> (jsstring + jsstring option)" where
  "callCerebras e w prompt context outputFile language contextFiles =
     (let attempt =
        (if falsy (cerebrasApiKey e) then
           callOpenRouter e w prompt context outputFile language contextFiles
         else
           (case assemble_prompt e w prompt context outputFile language contextFiles of
              (w1, Inl msg) \<Rightarrow> (w1, Inl msg)
            | (w1, Inr fullPrompt) \<Rightarrow>
                (let w2 = log_event (Request Cerebras fullPrompt) w1
                 in case cerebras_api e fullPrompt of
                      Completion rawContent \<Rightarrow> (w2, Inr (cleanCodeResponse rawContent))
                    | Failure msg \<Rightarrow>
                        if falsy (openRouterApiKey e) then
                          (w2, Inl (str ''Cerebras failed and no OpenRouter fallback available. Cerebras error: '' @ msg))
                        else
                          (case callOpenRouter e w2 prompt context outputFile language contextFiles of
                             (w3, Inr content) \<Rightarrow> (w3, Inr content)
                           | (w3, Inl msg2) \<Rightarrow>
                               (w3, Inl (str ''Both Cerebras and OpenRouter failed. Cerebras error: '' @ msg
                                         @ str ''. OpenRouter error: '' @ msg2))))))
      in case attempt of
           (w', Inr content) \<Rightarrow> (w', Inr content)
         | (w', Inl msg) \<Rightarrow>
             if falsy (openRouterApiKey e) then
               (w', Inl (str ''Cerebras setup failed and no OpenRouter fallback available. Error: '' @ msg))
             else
               (case callOpenRouter e w' prompt context outputFile language contextFiles of
                  (w3, Inr content) \<Rightarrow> (w3, Inr content)
                | (w3, Inl msg2) \<Rightarrow>
                    (w3, Inl (str ''Both Cerebras and OpenRouter failed. Setup error: '' @ msg
                              @ str ''. OpenRouter error: '' @ msg2))))"

section \<open>Tool Gateway: the handler of a tool call\<close>

record write_args =
  arg_file_path :: "jsstring option"
  arg_prompt :: "jsstring option"
  arg_context_files :: "jsstring list"

record request =
  tool_name :: jsstring
  arguments :: "write_args option"

definition diff_response :: "jsstring option \<Rightarrow> jsstring list" where
  \<comment> \<open>\<open>responseContent\<close> after \<open>if (diff) { ... push ... }\<close>: the texts of its items\<close>
  "diff_response d =
     (case (if falsy d then None else d) of None \<Rightarrow> [] | Some t \<Rightarrow> [diff_block t])"

text \<open>
  The handler of \<open>CallToolRequestSchema\<close>, lines 633 to 713. It returns the texts of the
  content items, or the message of the error it throws. A request without arguments fails
  in the destructuring of line 636.
\<close>

definition handle_call :: "env \<Rightarrow> world \<Rightarrow> request \<Rightarrow> world \<times> (jsstring + jsstring list)" where
  "handle_call e w req =
     (let failed = (\<lambda>msg. Inl (str ''Failed to write code: '' @ msg)) in
      if tool_name req \<noteq> str ''write'' then (w, Inl (str ''Unknown tool: '' @ tool_name req))
      else
        case arguments req of
          None \<Rightarrow>
            (w, failed (str ''Cannot destructure property '' @ [39] @ str ''file_path'' @ [39]
                        @ str '' of '' @ [39] @ str ''request.params.arguments'' @ [39]
                        @ str '' as it is undefined.''))
        | Some args \<Rightarrow>
            case (if falsy (arg_prompt args) then None else arg_prompt args) of
              None \<Rightarrow> (w, failed (str ''Prompt is required for write tool''))
            | Some prompt \<Rightarrow>
            case (if falsy (arg_file_path args) then None else arg_file_path args) of
              None \<Rightarrow> (w, failed (str ''file_path is required for write tool''))
            | Some file_path \<Rightarrow>
                case readFileContent e w file_path of
                  (w1, Inl msg) \<Rightarrow> (w1, failed msg)
                | (w1, Inr existingContent) \<Rightarrow>
                    let isEdit = (existingContent \<noteq> None) in
                    case callCerebras e w1 prompt [] file_path None (arg_context_files args) of
                      (w2, Inl msg) \<Rightarrow> (w2, failed msg)
                    | (w2, Inr result) \<Rightarrow>
                        let cleanResult = cleanCodeResponse result in
                        case writeFileContent e w2 file_path cleanResult of
                          (w3, Inl msg) \<Rightarrow> (w3, failed msg)
                        | (w3, Inr done_ok) \<Rightarrow>
                            if isEdit \<and> \<not> falsy existingContent then
                              let cleanExistingContent = cleanCodeResponse existingContent;
                                  d = generateGitDiff (createPatch e) cleanExistingContent
                                        cleanResult file_path
                              in (w3, Inr (diff_response d))
                            else if \<not> isEdit then
                              let d = generateGitDiff (createPatch e) None cleanResult file_path
                              in (w3, Inr (diff_response d))
                            else (w3, Inr []))"

section \<open>A concrete setting\<close>

text \<open>
  The setting of the examples: the home directory \<open>/home/u\<close>, the working directory
  \<open>/w\<close>, one file \<open>/home/u/x.py\<close> on disk, a secondary provider with a key, and no failure
  of the file system. The key and the answer of the primary provider, the answers of the
  secondary provider and the patch function vary.
\<close>

definition scenario_env ::
  "jsstring option \<Rightarrow> api_result \<Rightarrow> (nat \<Rightarrow> api_result) \<Rightarrow> patcher \<Rightarrow> env" where
  "scenario_env key cerebras openrouter cp =
     \<lparr>cerebrasApiKey = key, openRouterApiKey = Some (str ''key-2''),
      env_HOME = Some (str ''/home/u''), env_cwd = str ''/w'',
      cerebras_api = (\<lambda>q. cerebras), openrouter_api = (\<lambda>k q. openrouter k),
      mkdir_failure = (\<lambda>f. None), writeFile_failure = (\<lambda>f. None),
      invalid_data_message = str ''The data argument must be of type string'',
      createPatch = cp\<rparr>"

definition scenario_world :: "jsstring \<Rightarrow> world" where
  "scenario_world content =
     \<lparr>files = (\<lambda>f. if f = str ''/home/u/x.py'' then File content else Missing), trace = []\<rparr>"

definition write_request :: "jsstring option \<Rightarrow> jsstring option \<Rightarrow> jsstring list \<Rightarrow> request" where
  "write_request filePath prompt contextFiles =
     \<lparr>tool_name = str ''write'',
      arguments = Some \<lparr>arg_file_path = filePath, arg_prompt = prompt,
                        arg_context_files = contextFiles\<rparr>\<rparr>"

section \<open>Properties of the Response Sanitizer\<close>

lemmas char_class_defs =
  is_alpha_def is_tag_char_def is_digit_def is_line_terminator_def is_white_space_def

lemmas sanitizer_defs =
  str_def fence_def starts_with_def trim_def skip_newline_def skip_tag_def
  codeBlockRegex_exec_def codeBlocks.simps is_language_tag_def cleanCodeResponse_def

lemma split_fence_no_fence: "\<not> contains_fence s \<Longrightarrow> split_fence s = None"
  by (induction s) auto

lemma codeBlocks_no_fence: "\<not> contains_fence s \<Longrightarrow> codeBlocks s = []"
  by (simp add: codeBlocks.simps codeBlockRegex_exec_def split_fence_no_fence)

lemma remove_tagged_fences_no_fence: "\<not> contains_fence s \<Longrightarrow> remove_tagged_fences s = s"
  by (induction s) auto

lemma remove_fences_no_fence: "\<not> contains_fence s \<Longrightarrow> remove_fences s = s"
  by (induction s) auto

lemma split_on_not_Nil: "split_on d s \<noteq> []"
  by (cases s) (auto split: list.splits)

text \<open>The greedy reading of the expression is what the backtracking matcher finds.\<close>

lemma split_fence_None_iff: "split_fence s = None \<longleftrightarrow> \<not> contains_fence s"
  by (induction s) (auto split: option.splits)

lemma starts_with_fence_other: "c \<noteq> 96 \<Longrightarrow> \<not> starts_with (c # s) fence"
  by (simp add: starts_with_def fence_def)

lemma contains_fence_tl: "contains_fence (tl s) \<Longrightarrow> contains_fence s"
  by (cases s) auto

lemma contains_fence_drop_Suc: "contains_fence (drop (Suc k) s) \<Longrightarrow> contains_fence (drop k s)"
  using contains_fence_tl [of "drop k s"] by (simp add: drop_Suc tl_drop)

lemma contains_fence_skip_newline: "contains_fence (skip_newline s) = contains_fence s"
  by (cases s) (auto simp: skip_newline_def starts_with_fence_other)

lemma match_newline_body_eq: "match_newline_body s = split_fence (skip_newline s)"
proof (cases s)
  case Nil
  then show ?thesis by (simp add: match_newline_body_def skip_newline_def)
next
  case (Cons c cs)
  show ?thesis
  proof (cases "c = 10")
    case True
    then have "split_fence cs = None \<Longrightarrow> split_fence (c # cs) = None"
      by (simp add: starts_with_fence_other)
    with True Cons show ?thesis
      by (auto simp: match_newline_body_def skip_newline_def split: option.splits)
  next
    case False
    with Cons show ?thesis by (simp add: match_newline_body_def skip_newline_def)
  qed
qed

lemma contains_fence_drop_letters:
  "k \<le> length (takeWhile is_alpha r) \<Longrightarrow>
     contains_fence (drop k r) = contains_fence (dropWhile is_alpha r)"
proof (induction r arbitrary: k)
  case Nil
  then show ?case by simp
next
  case (Cons c cs)
  show ?case
  proof (cases "is_alpha c")
    case True
    then have c: "c \<noteq> 96" by (auto simp: is_alpha_def)
    show ?thesis
    proof (cases k)
      case 0
      with True c Cons.IH [of 0] show ?thesis by (simp add: starts_with_fence_other)
    next
      case (Suc j)
      with True Cons.prems Cons.IH [of j] show ?thesis by simp
    qed
  next
    case False
    with Cons.prems show ?thesis by simp
  qed
qed

lemma match_letters_body_None:
  assumes "\<not> contains_fence (dropWhile is_alpha r)"
  shows "k \<le> length (takeWhile is_alpha r) \<Longrightarrow> match_letters_body k r = None"
proof (induction k)
  case 0
  from assms contains_fence_drop_letters [of 0 r] show ?case
    by (simp add: match_newline_body_eq split_fence_None_iff contains_fence_skip_newline)
next
  case (Suc k)
  from assms Suc.prems contains_fence_drop_letters [of "Suc k" r]
  have "match_newline_body (drop (Suc k) r) = None"
    by (simp add: match_newline_body_eq split_fence_None_iff contains_fence_skip_newline)
  with Suc show ?case by simp
qed

lemma match_letters_body_greedy:
  "match_letters_body (length (takeWhile is_alpha r)) r = split_fence (skip_tag r)"
proof (cases "length (takeWhile is_alpha r)")
  case 0
  then have "dropWhile is_alpha r = r"
    using takeWhile_dropWhile_id [of is_alpha r] by simp
  with 0 show ?thesis by (simp add: match_newline_body_eq skip_tag_def)
next
  case (Suc k)
  have d: "drop (Suc k) r = dropWhile is_alpha r"
    using Suc dropWhile_eq_drop [of is_alpha r] by simp
  show ?thesis
  proof (cases "split_fence (skip_tag r)")
    case None
    then have "\<not> contains_fence (dropWhile is_alpha r)"
      by (simp add: split_fence_None_iff skip_tag_def contains_fence_skip_newline)
    from match_letters_body_None [OF this, of "Suc k"] Suc None show ?thesis by simp
  next
    case (Some m)
    with Suc d show ?thesis by (simp add: match_newline_body_eq skip_tag_def)
  qed
qed

lemma match_block_at_eq:
  "match_block_at s = (if starts_with s fence then split_fence (skip_tag (drop 3 s)) else None)"
  by (simp add: match_block_at_def match_letters_body_greedy)

lemma contains_fence_skip_tag: "contains_fence (skip_tag r) = contains_fence r"
  using contains_fence_drop_letters [of 0 r]
  by (simp add: skip_tag_def contains_fence_skip_newline)

lemma search_block_Some:
  "search_block t = Some m \<Longrightarrow> contains_fence (drop 3 t)"
proof (induction t)
  case Nil
  then show ?case by (simp add: match_block_at_eq starts_with_def fence_def)
next
  case (Cons c cs)
  show ?case
  proof (cases "match_block_at (c # cs)")
    case None
    with Cons have "contains_fence (drop 3 cs)" by simp
    with contains_fence_drop_Suc [of 2 cs] show ?thesis by simp
  next
    case (Some m')
    then have "split_fence (skip_tag (drop 3 (c # cs))) \<noteq> None"
      by (auto simp: match_block_at_eq split: if_splits)
    then show ?thesis by (simp add: split_fence_None_iff contains_fence_skip_tag)
  qed
qed

lemma search_block_eq_exec: "search_block s = codeBlockRegex_exec s"
proof (induction s)
  case Nil
  show ?case by (simp add: match_block_at_eq codeBlockRegex_exec_def starts_with_def fence_def)
next
  case (Cons c cs)
  show ?case
  proof (cases "starts_with (c # cs) fence")
    case True
    then have e: "codeBlockRegex_exec (c # cs) = split_fence (skip_tag (drop 2 cs))"
      by (simp add: codeBlockRegex_exec_def)
    from True have m: "match_block_at (c # cs) = split_fence (skip_tag (drop 2 cs))"
      by (simp add: match_block_at_eq)
    show ?thesis
    proof (cases "split_fence (skip_tag (drop 2 cs))")
      case None
      then have "\<not> contains_fence (drop 2 cs)"
        by (simp add: split_fence_None_iff contains_fence_skip_tag)
      with contains_fence_drop_Suc [of 2 cs] have "\<not> contains_fence (drop 3 cs)"
        by auto
      then have "search_block cs = None"
        using search_block_Some [of cs] by (cases "search_block cs") auto
      with None e m show ?thesis by simp
    next
      case (Some r)
      with e m show ?thesis by simp
    qed
  next
    case False
    then have "match_block_at (c # cs) = None" by (simp add: match_block_at_eq)
    moreover from False have "codeBlockRegex_exec (c # cs) = codeBlockRegex_exec cs"
      by (auto simp: codeBlockRegex_exec_def split: option.splits)
    ultimately show ?thesis using Cons by simp
  qed
qed

text \<open>What the sanitizer returns for any text without a fence.\<close>

lemma cleanCodeResponse_unfenced:
  assumes "\<not> contains_fence T"
  shows "cleanCodeResponse (Some T) =
           Some (if is_language_tag (trim (hd (split_on 10 (trim T))))
                 then trim (join [10] (tl (split_on 10 (trim T)))) else trim T)"
proof (cases "T = []")
  case True
  then show ?thesis
    by (simp add: cleanCodeResponse_def trim_def is_language_tag_def)
next
  case False
  with assms show ?thesis
    by (simp add: cleanCodeResponse_def codeBlocks_no_fence remove_tagged_fences_no_fence
        remove_fences_no_fence split_on_not_Nil Let_def)
qed

lemma length_trim: "length (trim s) \<le> length s"
proof -
  have "length (trim s) \<le> length (dropWhile is_white_space s)"
    unfolding trim_def using length_dropWhile_le [of is_white_space "rev (dropWhile is_white_space s)"]
    by simp
  also have "\<dots> \<le> length s" by (rule length_dropWhile_le)
  finally show ?thesis .
qed

lemma join_split_on: "join [d] (split_on d s) = s"
proof (induction s)
  case Nil
  show ?case by simp
next
  case (Cons c cs)
  show ?case
  proof (cases "c = d")
    case True
    with Cons show ?thesis by (cases "split_on d cs") (simp_all add: split_on_not_Nil)
  next
    case False
    with Cons show ?thesis
      by (cases "split_on d cs"; cases "tl (split_on d cs)") (auto simp: split_on_not_Nil)
  qed
qed

lemma length_join_tl:
  assumes "hd xs \<noteq> []" and "xs \<noteq> []"
  shows "length (join sep (tl xs)) < length (join sep xs)"
proof (cases xs)
  case Nil
  with assms show ?thesis by simp
next
  case (Cons x ys)
  with assms show ?thesis by (cases ys) auto
qed

lemma trim_Nil: "trim [] = []"
  by (simp add: trim_def)

text \<open>
  Claim C1, as stated: for every text \<open>T\<close> without a fence, \<open>cleanCodeResponse\<close> returns
  \<open>T\<close> unchanged. The code trims the text: the digit one followed by a space has no fence
  and comes back as the digit alone.
\<close>

theorem cleanCodeResponse_identity_counterexample:
  "\<not> contains_fence (str ''1 '')
   \<and> cleanCodeResponse (Some (str ''1 '')) = Some (str ''1'')
   \<and> cleanCodeResponse (Some (str ''1 '')) \<noteq> Some (str ''1 '')"
  by (simp add: sanitizer_defs char_class_defs)

text \<open>
  Claim C1, amended: for every text \<open>T\<close> that holds no fence, \<open>cleanCodeResponse\<close> returns
  \<open>T\<close> unchanged exactly when \<open>T\<close> has no white space at its start or end and its first
  line, trimmed, is not a non-empty run of letters and hash signs.
\<close>

theorem cleanCodeResponse_clean_text:
  assumes "\<not> contains_fence T"
  shows "cleanCodeResponse (Some T) = Some T \<longleftrightarrow>
           trim T = T \<and> \<not> is_language_tag (trim (hd (split_on 10 T)))"
proof (cases "is_language_tag (trim (hd (split_on 10 (trim T))))")
  case True
  then have "trim (hd (split_on 10 (trim T))) \<noteq> []" by (auto simp: is_language_tag_def)
  then have "hd (split_on 10 (trim T)) \<noteq> []" by (auto simp: trim_Nil)
  from length_join_tl [OF this split_on_not_Nil, of "[10]"]
  have "length (join [10] (tl (split_on 10 (trim T)))) < length (trim T)"
    by (simp add: join_split_on)
  with length_trim [of "join [10] (tl (split_on 10 (trim T)))"] length_trim [of T]
  have "length (trim (join [10] (tl (split_on 10 (trim T))))) < length T" by simp
  then have "trim (join [10] (tl (split_on 10 (trim T)))) \<noteq> T" by auto
  with True assms show ?thesis
    by (auto simp: cleanCodeResponse_unfenced)
next
  case False
  with assms show ?thesis
    by (auto simp: cleanCodeResponse_unfenced)
qed

theorem cleanCodeResponse_clean_text_witness:
  "\<not> contains_fence (str ''x = 1\<newline>print(x)'')
   \<and> trim (str ''x = 1\<newline>print(x)'') = str ''x = 1\<newline>print(x)''
   \<and> \<not> is_language_tag (trim (hd (split_on 10 (str ''x = 1\<newline>print(x)''))))
   \<and> cleanCodeResponse (Some (str ''x = 1\<newline>print(x)'')) = Some (str ''x = 1\<newline>print(x)'')"
proof -
  have 1: "\<not> contains_fence (str ''x = 1\<newline>print(x)'')"
    by (simp add: sanitizer_defs)
  have 2: "trim (str ''x = 1\<newline>print(x)'') = str ''x = 1\<newline>print(x)''"
    by (simp add: sanitizer_defs char_class_defs)
  have 3: "\<not> is_language_tag (trim (hd (split_on 10 (str ''x = 1\<newline>print(x)''))))"
    by (simp add: sanitizer_defs char_class_defs)
  from 1 2 3 cleanCodeResponse_clean_text [OF 1] show ?thesis by simp
qed

text \<open>What \<open>delimited\<close> says, in plain terms.\<close>

lemma contains_fence_two_backticks:
  "contains_fence (s @ [96, 96]) \<longleftrightarrow> contains_fence s \<or> (s \<noteq> [] \<and> last s = 96)"
proof (induction s)
  case Nil
  show ?case by (simp add: starts_with_def fence_def)
next
  case (Cons c cs)
  show ?case
  proof (cases cs)
    case Nil
    then show ?thesis by (auto simp: starts_with_def fence_def)
  next
    case (Cons d ds)
    note outer = this
    show ?thesis
    proof (cases ds)
      case Nil
      with outer Cons.IH show ?thesis by (auto simp: starts_with_def fence_def)
    next
      case (Cons x xs)
      with outer Cons.IH show ?thesis by (auto simp: starts_with_def fence_def)
    qed
  qed
qed

lemma delimited_iff: "delimited s \<longleftrightarrow> \<not> contains_fence s \<and> (s = [] \<or> last s \<noteq> 96)"
  by (auto simp: delimited_def contains_fence_two_backticks)

lemma starts_with_fence_append:
  "starts_with (c # cs @ fence @ r) fence = starts_with (c # cs @ [96, 96]) fence"
  by (cases cs; cases "tl cs") (auto simp: starts_with_def fence_def)

lemma split_fence_delimited:
  "delimited pre \<Longrightarrow> split_fence (pre @ fence @ r) = Some (pre, r)"
proof (induction pre)
  case Nil
  show ?case by (simp add: starts_with_def fence_def)
next
  case (Cons c cs)
  from Cons.prems have 1: "\<not> starts_with (c # cs @ [96, 96]) fence" and 2: "delimited cs"
    by (simp_all add: delimited_def)
  from 1 have "\<not> starts_with (c # cs @ fence @ r) fence"
    by (simp add: starts_with_fence_append)
  with Cons.IH [OF 2] show ?case by simp
qed

lemma contains_fence_append: "contains_fence ys \<Longrightarrow> contains_fence (xs @ ys)"
  by (induction xs) auto

lemma delimited_suffix: "delimited (xs @ ys) \<Longrightarrow> delimited ys"
  using contains_fence_append [of "ys @ [96, 96]" xs] by (auto simp: delimited_def)

lemma delimited_skip_tag: "delimited X \<Longrightarrow> delimited (skip_tag X)"
proof -
  assume d: "delimited X"
  have "\<exists>p. X = p @ skip_tag X"
  proof (cases "dropWhile is_alpha X")
    case Nil
    have "skip_tag X = []" unfolding skip_tag_def Nil by (simp add: skip_newline_def)
    then have "X = X @ skip_tag X" by simp
    then show ?thesis ..
  next
    case (Cons c cs)
    have X: "X = takeWhile is_alpha X @ c # cs"
      using Cons takeWhile_dropWhile_id [of is_alpha X] by simp
    show ?thesis
    proof (cases "c = 10")
      case True
      then have "skip_tag X = cs" using Cons by (simp add: skip_tag_def skip_newline_def)
      with X have "X = (takeWhile is_alpha X @ [c]) @ skip_tag X" by simp
      then show ?thesis ..
    next
      case False
      then have "skip_tag X = c # cs" using Cons by (simp add: skip_tag_def skip_newline_def)
      with X have "X = takeWhile is_alpha X @ skip_tag X" by simp
      then show ?thesis ..
    qed
  qed
  then obtain p where "X = p @ skip_tag X" ..
  with d delimited_suffix [of p "skip_tag X"] show ?thesis by simp
qed

text \<open>The tag and the newline are taken from the block's text, never from its closing fence.\<close>

lemma skip_tag_append_fence: "skip_tag (X @ fence @ post) = skip_tag X @ fence @ post"
proof (cases "dropWhile is_alpha X")
  case Nil
  then have "\<forall>x\<in>set X. is_alpha x" by simp
  then have "dropWhile is_alpha (X @ fence @ post) = dropWhile is_alpha (fence @ post)"
    by simp
  also have "\<dots> = fence @ post" by (simp add: fence_def is_alpha_def)
  finally have 1: "skip_tag (X @ fence @ post) = fence @ post"
    by (simp add: skip_tag_def skip_newline_def fence_def)
  have "skip_tag X = []" unfolding skip_tag_def Nil by (simp add: skip_newline_def)
  with 1 show ?thesis by simp
next
  case (Cons c cs)
  then have "\<not> (\<forall>x\<in>set X. is_alpha x)" using dropWhile_eq_Nil_conv [of is_alpha X] by auto
  then have "dropWhile is_alpha (X @ fence @ post) = dropWhile is_alpha X @ fence @ post"
    by auto
  with Cons show ?thesis by (simp add: skip_tag_def skip_newline_def)
qed

text \<open>
  Claim C6, as stated: for a text with one fenced block of body \<open>B\<close>, the sanitizer
  returns \<open>B\<close>, without its first line when that line is a bare language tag. The code
  trims what it extracts: for the block whose body is a space and the digit one, which
  has no tag line, it returns the digit alone.
\<close>

theorem cleanCodeResponse_block_body_counterexample:
  "spec_block_body (str '' 1'') = str '' 1''
   \<and> cleanCodeResponse (Some (fence @ str '' 1'' @ fence)) = Some (str ''1'')
   \<and> cleanCodeResponse (Some (fence @ str '' 1'' @ fence)) \<noteq> Some (spec_block_body (str '' 1''))"
  by (simp add: sanitizer_defs char_class_defs spec_block_body_def)

text \<open>
  Claim C6, amended: for every text \<open>pre\<close>, fence, \<open>X\<close>, fence, \<open>post\<close>, where neither \<open>pre\<close>
  nor \<open>X\<close> holds a fence or ends in a backtick, the sanitizer returns the block's text
  \<open>X\<close> after the run of letters that follows the opening fence and one newline, trimmed
  of white space; when the first line of that, trimmed, is a non-empty run of letters and
  hash signs, this line is removed as well and the rest is trimmed again.
\<close>

theorem cleanCodeResponse_first_block:
  assumes "delimited pre" and "delimited X"
  shows "cleanCodeResponse (Some (pre @ fence @ X @ fence @ post)) =
           Some (let code = trim (skip_tag X); lines = split_on 10 code
                 in if is_language_tag (trim (hd lines)) then trim (join [10] (tl lines))
                    else code)"
proof -
  have 1: "split_fence (pre @ fence @ X @ fence @ post) = Some (pre, X @ fence @ post)"
    using split_fence_delimited [OF assms(1)] by simp
  have 2: "split_fence (skip_tag X @ fence @ post) = Some (skip_tag X, post)"
    using split_fence_delimited [OF delimited_skip_tag [OF assms(2)]] by simp
  have "codeBlockRegex_exec (pre @ fence @ X @ fence @ post) = Some (skip_tag X, post)"
    by (simp add: codeBlockRegex_exec_def 1 2 skip_tag_append_fence)
  then have "codeBlocks (pre @ fence @ X @ fence @ post) = trim (skip_tag X) # codeBlocks post"
    by (subst codeBlocks.simps) simp
  moreover have "fence \<noteq> []" by (simp add: fence_def)
  ultimately show ?thesis
    by (simp add: cleanCodeResponse_def split_on_not_Nil Let_def)
qed

theorem cleanCodeResponse_first_block_witness:
  "delimited (str ''Here it is:\<newline>'')
   \<and> delimited (str ''python\<newline>x = 1\<newline>print(x)\<newline>'')
   \<and> cleanCodeResponse
        (Some (str ''Here it is:\<newline>'' @ fence @ str ''python\<newline>x = 1\<newline>print(x)\<newline>''
               @ fence @ str ''\<newline>Done.''))
      = Some (str ''x = 1\<newline>print(x)'')"
proof -
  have 1: "delimited (str ''Here it is:\<newline>'')"
    by (simp add: delimited_def sanitizer_defs)
  have 2: "delimited (str ''python\<newline>x = 1\<newline>print(x)\<newline>'')"
    by (simp add: delimited_def sanitizer_defs)
  have 3: "(let code = trim (skip_tag (str ''python\<newline>x = 1\<newline>print(x)\<newline>''));
                lines = split_on 10 code
            in if is_language_tag (trim (hd lines)) then trim (join [10] (tl lines)) else code)
           = str ''x = 1\<newline>print(x)''"
    by (simp add: sanitizer_defs char_class_defs)
  from 1 2 cleanCodeResponse_first_block [OF 1 2, of "str ''\<newline>Done.''"] 3
  show ?thesis by simp
qed

section \<open>Properties of the Diff Synthesizer\<close>

lemmas diff_defs =
  generateGitDiff_def fileName_of_def match_hunk_header_def match_range_def fix_hunk_header_def
  falsy_def

lemma show_nat_digits: "list_all is_digit (show_nat n)"
proof (induction n rule: show_nat.induct)
  case (1 n)
  show ?case
  proof (cases "n < 10")
    case True
    then show ?thesis by (subst show_nat.simps) (simp add: is_digit_def)
  next
    case False
    have "n mod 10 < 10" by simp
    then have "is_digit (48 + n mod 10)" unfolding is_digit_def by linarith
    with False 1 show ?thesis by (subst show_nat.simps) simp
  qed
qed

lemma show_nat_not_Nil: "show_nat n \<noteq> []"
  by (subst show_nat.simps) simp

lemma parseInt_snoc: "parseInt (ds @ [c]) = 10 * parseInt ds + (c - 48)"
  by (simp add: parseInt_def)

lemma parseInt_show_nat: "parseInt (show_nat n) = n"
proof (induction n rule: show_nat.induct)
  case (1 n)
  show ?case
  proof (cases "n < 10")
    case True
    then show ?thesis by (subst show_nat.simps) (simp add: parseInt_def)
  next
    case False
    with 1 have "parseInt (show_nat (n div 10)) = n div 10" by simp
    with False show ?thesis by (subst show_nat.simps) (simp add: parseInt_snoc)
  qed
qed

lemma takeWhile_digits_append:
  "list_all is_digit ds \<Longrightarrow> \<not> is_digit c \<Longrightarrow> takeWhile is_digit (ds @ c # r) = ds"
  by (induction ds) auto

lemma dropWhile_digits_append:
  "list_all is_digit ds \<Longrightarrow> \<not> is_digit c \<Longrightarrow> dropWhile is_digit (ds @ c # r) = c # r"
  by (induction ds) auto

lemma match_range_show:
  "match_range (show_nat a @ count_suffix c @ 32 # r) = Some (show_nat a, map_option show_nat c, 32 # r)"
proof (cases c)
  case None
  have "\<not> is_digit 32" by (simp add: is_digit_def)
  then show ?thesis
    using None show_nat_digits [of a] show_nat_not_Nil [of a]
    by (simp add: match_range_def count_suffix_def takeWhile_digits_append
        dropWhile_digits_append is_digit_def)
next
  case (Some k)
  have 1: "\<not> is_digit 32" and 2: "\<not> is_digit 44" by (simp_all add: is_digit_def)
  have 3: "takeWhile is_digit (show_nat a @ 44 # show_nat k @ 32 # r) = show_nat a"
    using takeWhile_digits_append [OF show_nat_digits 2] by simp
  have 4: "dropWhile is_digit (show_nat a @ 44 # show_nat k @ 32 # r) = 44 # show_nat k @ 32 # r"
    using dropWhile_digits_append [OF show_nat_digits 2] by simp
  have 5: "takeWhile is_digit (show_nat k @ 32 # r) = show_nat k"
    using takeWhile_digits_append [OF show_nat_digits 1] by simp
  have 6: "dropWhile is_digit (show_nat k @ 32 # r) = 32 # r"
    using dropWhile_digits_append [OF show_nat_digits 1] by simp
  show ?thesis
    using Some show_nat_not_Nil [of a] show_nat_not_Nil [of k]
    by (simp add: match_range_def count_suffix_def 3 4 5 6)
qed

lemma match_hunk_header_hunk_header:
  "match_hunk_header (hunk_header a c b d)
     = Some (show_nat a, map_option show_nat c, show_nat b, map_option show_nat d)"
proof -
  have 1: "starts_with (hunk_header a c b d) (str ''@@ -'')"
    by (simp add: hunk_header_def starts_with_def str_def)
  have 2: "drop 4 (hunk_header a c b d)
             = show_nat a @ count_suffix c @ 32 # (43 # show_nat b @ count_suffix d @ str '' @@'')"
    by (simp add: hunk_header_def str_def)
  have 3: "starts_with (32 # (43 # show_nat b @ count_suffix d @ str '' @@'')) (str '' +'')"
    by (simp add: starts_with_def str_def)
  have 4: "drop 2 (32 # (43 # show_nat b @ count_suffix d @ str '' @@''))
             = show_nat b @ count_suffix d @ str '' @@''"
    by simp
  have 5: "32 # str ''@@'' = str '' @@''" by (simp add: str_def)
  have 6: "match_range (show_nat b @ count_suffix d @ str '' @@'')
             = Some (show_nat b, map_option show_nat d, str '' @@'')"
    using match_range_show [of b d "str ''@@''"] by (simp only: 5)
  show ?thesis
    unfolding match_hunk_header_def
    by (simp only: 1 2 3 4 6 match_range_show if_True option.case prod.case refl)
qed

lemma fix_hunk_header_hunk_header:
  "fix_hunk_header (hunk_header a c b d) = hunk_header (a + 4) c (b + 4) d"
proof -
  have "fix_hunk_header (hunk_header a c b d)
          = str ''@@ -'' @ show_nat (parseInt (show_nat a) + 4)
            @ (case map_option show_nat c of None \<Rightarrow> [] | Some k \<Rightarrow> 44 # k) @ str '' +''
            @ show_nat (parseInt (show_nat b) + 4)
            @ (case map_option show_nat d of None \<Rightarrow> [] | Some k \<Rightarrow> 44 # k) @ str '' @@''"
    unfolding fix_hunk_header_def match_hunk_header_hunk_header by (simp add: Let_def)
  also have "\<dots> = hunk_header (a + 4) c (b + 4) d"
    by (cases c; cases d) (simp_all add: parseInt_show_nat hunk_header_def count_suffix_def)
  finally show ?thesis .
qed

lemma split_on_no_sep: "\<forall>l\<in>set (split_on d s). d \<notin> set l"
  by (induction s) (auto split: list.splits)

lemma split_on_no_sep_id: "d \<notin> set x \<Longrightarrow> split_on d x = [x]"
  by (induction x) auto

lemma split_on_append_sep:
  "d \<notin> set x \<Longrightarrow> split_on d (x @ d # r) = x # split_on d r"
  by (induction x) auto

lemma split_on_join:
  "xs \<noteq> [] \<Longrightarrow> \<forall>x\<in>set xs. d \<notin> set x \<Longrightarrow> split_on d (join [d] xs) = xs"
proof (induction xs rule: induct_list012)
  case 1
  then show ?case by simp
next
  case (2 x)
  then show ?case by (simp add: split_on_no_sep_id)
next
  case (3 x y ys)
  then show ?case by (simp add: split_on_append_sep)
qed

lemma match_range_digits:
  assumes "match_range s = Some (st, cnt, r)"
  shows "list_all is_digit st \<and> (\<forall>k. cnt = Some k \<longrightarrow> list_all is_digit k)"
  using assms
  by (auto simp: match_range_def Let_def list_all_iff split: if_splits dest: set_takeWhileD)

lemma fix_hunk_header_no_newline:
  assumes "10 \<notin> set l"
  shows "10 \<notin> set (fix_hunk_header l)"
proof (cases "match_hunk_header l")
  case None
  with assms show ?thesis by (simp add: fix_hunk_header_def)
next
  case (Some m)
  obtain os oc ns nc where m: "m = (os, oc, ns, nc)" by (cases m) auto
  from Some m obtain r r' where 1: "match_range (drop 4 l) = Some (os, oc, r)"
    and 2: "match_range (drop 2 r) = Some (ns, nc, r')"
    by (auto simp: match_hunk_header_def split: if_splits option.splits)
  have d: "\<And>k. list_all is_digit k \<Longrightarrow> 10 \<notin> set k"
    by (auto simp: list_all_iff is_digit_def)
  have oc: "10 \<notin> set (case oc of None \<Rightarrow> [] | Some c \<Rightarrow> 44 # c)"
    using match_range_digits [OF 1] d by (cases oc) auto
  have nc: "10 \<notin> set (case nc of None \<Rightarrow> [] | Some c \<Rightarrow> 44 # c)"
    using match_range_digits [OF 2] d by (cases nc) auto
  have s: "\<And>n. 10 \<notin> set (show_nat n)" using d [OF show_nat_digits] .
  from Some m oc nc s show ?thesis
    by (simp add: fix_hunk_header_def Let_def str_def)
qed

lemma generateGitDiff_modification:
  assumes "old \<noteq> []" and "new \<noteq> []"
  shows "generateGitDiff cp (Some old) (Some new) filePath
           = Some (join [10] (map fix_hunk_header (patch_lines cp old new filePath)))"
  using assms by (simp add: generateGitDiff_def falsy_def patch_lines_def Let_def)

lemma patch_lines_no_newline: "\<forall>l\<in>set (patch_lines cp old new filePath). 10 \<notin> set l"
proof -
  have "set (tl xs) \<subseteq> set xs" for xs :: "jsstring list" by (cases xs) auto
  then show ?thesis
    using split_on_no_sep [of 10] by (auto simp: patch_lines_def Let_def)
qed

lemma split_on_length: "length (split_on d s) = Suc (count_list s d)"
  by (induction s) (auto split: list.splits)

text \<open>
  Claim C4: for every non-empty new content \<open>N\<close> and absent old content, the diff is the
  four lines of the file header, one hunk header \<^verbatim>\<open>@@ -0,0 +1,L @@\<close> and the lines of
  \<open>N\<close>, each behind a plus sign. \<open>L\<close> is the number of lines of \<open>N\<close> as \<open>split\<close> counts
  them: one more than the number of newlines.
\<close>

theorem generateGitDiff_creation:
  assumes "N \<noteq> []"
  shows "generateGitDiff cp None (Some N) filePath =
           Some (join [10]
             ([str ''diff --git a/'' @ fileName_of filePath @ str '' b/'' @ fileName_of filePath,
               str ''new file mode 100644'',
               str ''--- /dev/null'',
               str ''+++ b/'' @ fileName_of filePath,
               hunk_header 0 (Some 0) 1 (Some (length (split_on 10 N)))]
              @ map (\<lambda>line. 43 # line) (split_on 10 N)))
         \<and> length (split_on 10 N) = Suc (count_list N 10)"
proof -
  have "show_nat 0 = [48]" and "show_nat 1 = [49]"
    by (simp_all add: show_nat.simps)
  then have "hunk_header 0 (Some 0) 1 (Some (length (split_on 10 N)))
               = str ''@@ -0,0 +1,'' @ show_nat (length (split_on 10 N)) @ str '' @@''"
    by (simp add: hunk_header_def count_suffix_def str_def)
  with assms show ?thesis
    by (simp add: generateGitDiff_def falsy_def Let_def split_on_length)
qed

theorem generateGitDiff_creation_witness:
  "generateGitDiff unchanged_patch None (Some (str ''print(1)'')) (str ''/tmp/x.py'') =
     Some (str ''diff --git a/x.py b/x.py\<newline>new file mode 100644\<newline>--- /dev/null\<newline>+++ b/x.py\<newline>@@ -0,0 +1,1 @@\<newline>+print(1)'')"
proof -
  have "str ''print(1)'' \<noteq> []" by (simp add: str_def)
  from generateGitDiff_creation [OF this, of unchanged_patch "str ''/tmp/x.py''"]
  show ?thesis
    by (simp add: fileName_of_def hunk_header_def count_suffix_def show_nat.simps str_def)
qed

text \<open>
  Claim C5: in a modification diff, a line of the underlying patch that is a hunk header
  \<^verbatim>\<open>@@ -a,c +b,d @@\<close> is, at the same place in the returned diff, the hunk header
  \<^verbatim>\<open>@@ -(a+4),c +(b+4),d @@\<close>: both starts are four higher, both counts are kept. The
  starts are below \<open>2 ^ 53\<close>, where the numbers of the program are exact.
\<close>

theorem generateGitDiff_shifts_hunk_headers:
  assumes "old \<noteq> []" and "new \<noteq> []"
    and "i < length (patch_lines cp old new filePath)"
    and "patch_lines cp old new filePath ! i = hunk_header a c b d"
    and "a + 4 < 2 ^ 53" and "b + 4 < 2 ^ 53"
  shows "\<exists>D. generateGitDiff cp (Some old) (Some new) filePath = Some D
             \<and> length (split_on 10 D) = length (patch_lines cp old new filePath)
             \<and> split_on 10 D ! i = hunk_header (a + 4) c (b + 4) d"
proof -
  let ?ls = "patch_lines cp old new filePath"
  let ?out = "map fix_hunk_header ?ls"
  have ne: "?out \<noteq> []" using assms(3) by auto
  have "\<forall>x\<in>set ?out. 10 \<notin> set x"
    using patch_lines_no_newline [of cp old new filePath] fix_hunk_header_no_newline by auto
  with ne have "split_on 10 (join [10] ?out) = ?out" by (rule split_on_join)
  moreover have "?out ! i = hunk_header (a + 4) c (b + 4) d"
    using assms(3,4) by (simp add: fix_hunk_header_hunk_header)
  ultimately show ?thesis
    using generateGitDiff_modification [OF assms(1,2), of cp filePath] by simp
qed

theorem generateGitDiff_shifts_hunk_headers_witness:
  "patch_lines one_hunk_patch (str ''a\<newline>b\<newline>c\<newline>'') (str ''a\<newline>b\<newline>d\<newline>'') (str ''/tmp/t.txt'') ! 4
     = hunk_header 1 (Some 3) 1 (Some 3)
   \<and> (\<exists>D. generateGitDiff one_hunk_patch (Some (str ''a\<newline>b\<newline>c\<newline>''))
               (Some (str ''a\<newline>b\<newline>d\<newline>'')) (str ''/tmp/t.txt'') = Some D
          \<and> length (split_on 10 D)
              = length (patch_lines one_hunk_patch (str ''a\<newline>b\<newline>c\<newline>'')
                          (str ''a\<newline>b\<newline>d\<newline>'') (str ''/tmp/t.txt''))
          \<and> split_on 10 D ! 4 = hunk_header 5 (Some 3) 5 (Some 3))"
proof -
  let ?old = "str ''a\<newline>b\<newline>c\<newline>''" and ?new = "str ''a\<newline>b\<newline>d\<newline>''"
  let ?ls = "patch_lines one_hunk_patch ?old ?new (str ''/tmp/t.txt'')"
  have 1: "?old \<noteq> []" and 2: "?new \<noteq> []" by (simp_all add: str_def)
  have 3: "4 < length ?ls"
    by (simp add: diff_defs patch_lines_def one_hunk_patch_def patch_header_def str_def
        starts_with_def Let_def)
  have 4: "?ls ! 4 = hunk_header 1 (Some 3) 1 (Some 3)"
    by (simp add: diff_defs patch_lines_def one_hunk_patch_def patch_header_def hunk_header_def
        count_suffix_def str_def starts_with_def show_nat.simps Let_def)
  have 5: "(1::nat) + 4 < 2 ^ 53" by simp
  from generateGitDiff_shifts_hunk_headers [OF 1 2 3 4 5 5] 4 show ?thesis by simp
qed

lemma generateGitDiff_absent_iff: "generateGitDiff cp old new filePath = None \<longleftrightarrow> falsy new"
  by (auto simp: generateGitDiff_def falsy_def Let_def split: option.splits)

section \<open>Properties of the Tool Gateway\<close>

lemmas path_defs =
  isAbsolute_def normalizeString_def ends_with_slash_def path_normalize_def path_join_def
  path_resolve_def extname_def toLowerCase_def languageMap_def getLanguageFromFile_def
  replace_first_def readFileContent_path_def writeFileContent_path_def

lemmas call_defs =
  log_event_def readFileContent_def writeFileContent_def filter_context_files_def
  assemble_prompt_def openrouter_requests_def callOpenRouter_def callCerebras_def

lemmas scenario_defs = scenario_env_def scenario_world_def write_request_def

lemma falsy_simps: "falsy None" "falsy (Some x) \<longleftrightarrow> x = []"
  by (simp_all add: falsy_def)

text \<open>
  Claim C3, as stated: for equal old and new contents the diff synthesizer returns
  absent and the tool call returns an empty result. The code has no test for equal
  contents: with the patch the package prints for them, the synthesizer returns the patch
  header, and the call that regenerates the content the file already has returns that
  header as its result.
\<close>

theorem generateGitDiff_identical_counterexample:
  "generateGitDiff unchanged_patch (Some (str ''a'')) (Some (str ''a'')) (str ''/tmp/f.txt'')
     = Some (patch_header (str ''f.txt'') (str ''a/f.txt'') (str ''b/f.txt''))
   \<and> generateGitDiff unchanged_patch (Some (str ''a'')) (Some (str ''a'')) (str ''/tmp/f.txt'')
       \<noteq> None
   \<and> snd (handle_call
            (scenario_env (Some (str ''key-1'')) (Completion (Some (str ''print(1)'')))
               (\<lambda>k. Failure []) unchanged_patch)
            (scenario_world (str ''print(1)''))
            (write_request (Some (str ''/home/u/x.py'')) (Some (str ''keep it'')) []))
       = Inr [fence @ str ''diff\<newline>''
              @ patch_header (str ''x.py'') (str ''a/x.py'') (str ''b/x.py'') @ [10] @ fence]"
  by (simp add: handle_call_def call_defs scenario_defs path_defs diff_defs unchanged_patch_def
      patch_header_def diff_response_def diff_block_def cursorFriendly_def sanitizer_defs
      char_class_defs Let_def)

text \<open>
  Claim C3, amended: the diff synthesizer returns absent exactly when the new content is
  empty or absent, whatever the old content is; and a tool call whose generated content,
  sanitized, is empty returns an empty result once that content is written. Equal old
  and new contents are no case of their own.
\<close>

theorem handle_call_no_diff_for_empty_content:
  assumes "tool_name req = str ''write''" and "arguments req = Some args"
    and "arg_file_path args = Some filePath" and "filePath \<noteq> []"
    and "arg_prompt args = Some p" and "p \<noteq> []"
    and "readFileContent e w filePath = (w1, Inr existing)"
    and "callCerebras e w1 p [] filePath None (arg_context_files args) = (w2, Inr result)"
    and "cleanCodeResponse result = Some []"
    and "writeFileContent e w2 filePath (Some []) = (w3, Inr ok)"
  shows "(generateGitDiff cp old new filePath = None \<longleftrightarrow> falsy new)
         \<and> handle_call e w req = (w3, Inr [])"
proof -
  have none: "generateGitDiff cp' old' (Some []) filePath = None" for cp' old'
    by (simp add: generateGitDiff_absent_iff falsy_simps)
  from assms show ?thesis
    by (simp add: handle_call_def Let_def falsy_simps none generateGitDiff_absent_iff
        diff_response_def)
qed

theorem handle_call_no_diff_for_empty_content_witness:
  "snd (handle_call
          (scenario_env (Some (str ''key-1'')) (Completion (Some [])) (\<lambda>k. Failure []) unchanged_patch)
          (scenario_world (str ''print(1)''))
          (write_request (Some (str ''/home/u/x.py'')) (Some (str ''empty the file'')) []))
     = Inr []"
proof -
  let ?e = "scenario_env (Some (str ''key-1'')) (Completion (Some [])) (\<lambda>k. Failure []) unchanged_patch"
  let ?w = "scenario_world (str ''print(1)'')"
  let ?f = "str ''/home/u/x.py''" and ?p = "str ''empty the file''"
  let ?req = "write_request (Some ?f) (Some ?p) []"
  let ?args = "\<lparr>arg_file_path = Some ?f, arg_prompt = Some ?p, arg_context_files = []\<rparr>"
  let ?w1 = "fst (readFileContent ?e ?w ?f)"
  let ?w2 = "fst (callCerebras ?e ?w1 ?p [] ?f None [])"
  let ?w3 = "fst (writeFileContent ?e ?w2 ?f (Some []))"
  have 1: "tool_name ?req = str ''write''" and 2: "arguments ?req = Some ?args"
    by (simp_all add: write_request_def)
  have 3: "arg_file_path ?args = Some ?f" and 4: "?f \<noteq> []"
    and 5: "arg_prompt ?args = Some ?p" and 6: "?p \<noteq> []"
    by (simp_all add: str_def)
  have 7: "readFileContent ?e ?w ?f = (?w1, Inr (Some (str ''print(1)'')))"
    by (simp add: call_defs scenario_defs path_defs str_def Let_def)
  have 8: "callCerebras ?e ?w1 ?p [] ?f None (arg_context_files ?args) = (?w2, Inr (Some []))"
    by (simp add: call_defs scenario_defs path_defs falsy_simps str_def starts_with_def cleanCodeResponse_def Let_def)
  have 9: "cleanCodeResponse (Some []) = Some []"
    by (simp add: cleanCodeResponse_def)
  have 10: "writeFileContent ?e ?w2 ?f (Some []) = (?w3, Inr True)"
    by (simp add: call_defs scenario_defs path_defs str_def Let_def)
  from handle_call_no_diff_for_empty_content [OF 1 2 3 4 5 6 7 8 9 10]
  show ?thesis by simp
qed

text \<open>
  Claim C7: a write call without arguments, or whose \<open>file_path\<close> or \<open>prompt\<close> is missing
  or empty, ends in an error and leaves the state as it was: no file is read or written,
  no directory made, no provider asked.
\<close>

theorem handle_call_rejects_missing_fields:
  assumes "tool_name req = str ''write''"
    and "arguments req = None
         \<or> (\<exists>args. arguments req = Some args
                \<and> (falsy (arg_file_path args) \<or> falsy (arg_prompt args)))"
  shows "fst (handle_call e w req) = w \<and> isl (snd (handle_call e w req))"
  using assms by (auto simp: handle_call_def Let_def split: option.splits)

theorem handle_call_rejects_missing_fields_witness:
  "fst (handle_call
          (scenario_env (Some (str ''key-1'')) (Completion (Some (str ''print(2)''))) (\<lambda>k. Failure []) unchanged_patch)
          (scenario_world (str ''print(1)''))
          (write_request (Some (str ''/home/u/x.py'')) (Some []) [])) = scenario_world (str ''print(1)'')
   \<and> isl (snd (handle_call
          (scenario_env (Some (str ''key-1'')) (Completion (Some (str ''print(2)''))) (\<lambda>k. Failure []) unchanged_patch)
          (scenario_world (str ''print(1)''))
          (write_request (Some (str ''/home/u/x.py'')) (Some []) [])))"
proof -
  let ?req = "write_request (Some (str ''/home/u/x.py'')) (Some []) []"
  have 1: "tool_name ?req = str ''write''" by (simp add: write_request_def)
  have 2: "arguments ?req = None
           \<or> (\<exists>args. arguments ?req = Some args
                  \<and> (falsy (arg_file_path args) \<or> falsy (arg_prompt args)))"
    by (simp add: write_request_def falsy_simps)
  from handle_call_rejects_missing_fields [OF 1 2] show ?thesis by simp
qed






























section \<open>Properties of the Content Store Access\<close>

text \<open>What is written under a raw path is what is read back under it.\<close>

lemma write_then_read:
  assumes "mkdir_failure e (writeFileContent_path e filePath) = None"
    and "writeFile_failure e (writeFileContent_path e filePath) = None"
  shows "snd (readFileContent e (fst (writeFileContent e w filePath (Some c))) filePath)
           = Inr (Some c)"
  using assms
  by (simp add: readFileContent_def writeFileContent_def readFileContent_path_def
      writeFileContent_path_def log_event_def Let_def)

text \<open>
  Claim C9: for every raw path, home directory and working directory, the path
  normalization of \<open>readFileContent\<close> and that of \<open>writeFileContent\<close> give the same path.
\<close>

theorem path_normalization_same: "readFileContent_path e filePath = writeFileContent_path e filePath"
  by (simp add: readFileContent_path_def writeFileContent_path_def)

section \<open>Properties of the Provider Orchestrator\<close>

text \<open>
  Reading files sends no request, one call of \<open>callOpenRouter\<close> sends at most one, and a
  call of \<open>callCerebras\<close> sends at most two requests to OpenRouter.
\<close>

lemma openrouter_requests_log:
  "openrouter_requests (log_event ev w) =
     openrouter_requests w + (case ev of Request OpenRouter q \<Rightarrow> 1 | _ \<Rightarrow> 0)"
  by (simp add: openrouter_requests_def log_event_def split: event.splits provider.splits)

lemma readFileContent_requests:
  "openrouter_requests (fst (readFileContent e w f)) = openrouter_requests w"
  by (simp add: readFileContent_def Let_def openrouter_requests_log split: fs_entry.splits)

lemma read_context_files_requests:
  "openrouter_requests (fst (read_context_files e w fs acc)) = openrouter_requests w"
proof (induction fs arbitrary: w acc)
  case Nil
  show ?case by simp
next
  case (Cons f fs)
  obtain w' r where r: "readFileContent e w f = (w', r)" by (cases "readFileContent e w f")
  then have "openrouter_requests w' = openrouter_requests w"
    using readFileContent_requests [of e w f] by simp
  with r Cons.IH show ?case
    by (auto split: sum.splits option.splits)
qed

lemma assemble_prompt_requests:
  "openrouter_requests (fst (assemble_prompt e w p c out l ctx)) = openrouter_requests w"
proof -
  obtain w1 q where 1: "(if ctx \<noteq> [] \<and> filter_context_files e out ctx \<noteq> [] then
               (case read_context_files e w (filter_context_files e out ctx) (str ''Context Files:'' @ [10]) of
                  (w', contextContent) \<Rightarrow> (w', contextContent @ [10] @ (str ''Generate '' @ getLanguageFromFile out l @ str '' code for: '' @ p)))
             else (w, (str ''Generate '' @ getLanguageFromFile out l @ str '' code for: '' @ p))) = (w1, q)"
    by (metis surj_pair)
  then have 2: "openrouter_requests w1 = openrouter_requests w"
    using read_context_files_requests [of e w "filter_context_files e out ctx" "str ''Context Files:'' @ [10]"]
    by (auto split: if_splits prod.splits)
  obtain w2 r where 3: "readFileContent e w1 out = (w2, r)" by (cases "readFileContent e w1 out")
  then have "openrouter_requests w2 = openrouter_requests w1"
    using readFileContent_requests [of e w1 out] by simp
  with 1 2 3 show ?thesis
    by (auto simp: assemble_prompt_def Let_def split: sum.splits option.splits)
qed

lemma callOpenRouter_requests:
  "openrouter_requests (fst (callOpenRouter e w p c out l ctx)) \<le> openrouter_requests w + 1"
proof -
  obtain w1 r where 1: "assemble_prompt e w p c out l ctx = (w1, r)"
    by (cases "assemble_prompt e w p c out l ctx")
  then have "openrouter_requests w1 = openrouter_requests w"
    using assemble_prompt_requests [of e w p c out l ctx] by simp
  with 1 show ?thesis
    by (auto simp: callOpenRouter_def Let_def openrouter_requests_log
        split: sum.splits api_result.splits)
qed

lemma callCerebras_requests:
  "openrouter_requests (fst (callCerebras e w p c out l ctx)) \<le> openrouter_requests w + 2"
proof -
  let ?attempt = "(if falsy (cerebrasApiKey e) then
           callOpenRouter e w p c out l ctx
         else
           (case assemble_prompt e w p c out l ctx of
              (w1, Inl msg) \<Rightarrow> (w1, Inl msg)
            | (w1, Inr fullPrompt) \<Rightarrow>
                (let w2 = log_event (Request Cerebras fullPrompt) w1
                 in case cerebras_api e fullPrompt of
                      Completion rawContent \<Rightarrow> (w2, Inr (cleanCodeResponse rawContent))
                    | Failure msg \<Rightarrow>
                        if falsy (openRouterApiKey e) then
                          (w2, Inl (str ''Cerebras failed and no OpenRouter fallback available. Cerebras error: '' @ msg))
                        else
                          (case callOpenRouter e w2 p c out l ctx of
                             (w3, Inr content) \<Rightarrow> (w3, Inr content)
                           | (w3, Inl msg2) \<Rightarrow>
                               (w3, Inl (str ''Both Cerebras and OpenRouter failed. Cerebras error: '' @ msg
                                         @ str ''. OpenRouter error: '' @ msg2))))))"
  have a: "openrouter_requests (fst ?attempt) \<le> openrouter_requests w + 1"
  proof (cases "falsy (cerebrasApiKey e)")
    case True
    then show ?thesis using callOpenRouter_requests [of e w p c out l ctx] by simp
  next
    case False
    obtain w1 r where 1: "assemble_prompt e w p c out l ctx = (w1, r)"
      by (cases "assemble_prompt e w p c out l ctx")
    then have 2: "openrouter_requests w1 = openrouter_requests w"
      using assemble_prompt_requests [of e w p c out l ctx] by simp
    have 3: "openrouter_requests (fst (callOpenRouter e (log_event (Request Cerebras q) w1) p c out l ctx))
               \<le> openrouter_requests w + 1" for q
      using callOpenRouter_requests [of e "log_event (Request Cerebras q) w1" p c out l ctx] 2
      by (simp add: openrouter_requests_log)
    show ?thesis
    proof (cases r)
      case (Inl msg)
      with False 1 2 show ?thesis by simp
    next
      case (Inr q)
      with False 1 2 3 [of q] show ?thesis
        by (auto simp: Let_def openrouter_requests_log split: api_result.splits prod.splits sum.splits)
    qed
  qed
  obtain w' r' where at: "?attempt = (w', r')" by (cases ?attempt)
  with a have b: "openrouter_requests w' \<le> openrouter_requests w + 1" by simp
  have "callCerebras e w p c out l ctx =
          (case (w', r') of
             (w', Inr content) \<Rightarrow> (w', Inr content)
           | (w', Inl msg) \<Rightarrow>
               if falsy (openRouterApiKey e) then
                 (w', Inl (str ''Cerebras setup failed and no OpenRouter fallback available. Error: '' @ msg))
               else
                 (case callOpenRouter e w' p c out l ctx of
                    (w3, Inr content) \<Rightarrow> (w3, Inr content)
                  | (w3, Inl msg2) \<Rightarrow>
                      (w3, Inl (str ''Both Cerebras and OpenRouter failed. Setup error: '' @ msg
                                @ str ''. OpenRouter error: '' @ msg2))))"
    unfolding callCerebras_def Let_def at [symmetric] ..
  with b callOpenRouter_requests [of e w' p c out l ctx] show ?thesis
    by (auto split: sum.splits prod.splits)
qed

text \<open>The filter keeps the entries that \<open>path.resolve\<close> tells apart from the target.\<close>

lemma filter_context_files_resolve:
  "f \<in> set (filter_context_files e outputFile contextFiles) \<longleftrightarrow>
     f \<in> set contextFiles \<and> path_resolve (env_cwd e) f \<noteq> path_resolve (env_cwd e) outputFile"
  by (simp add: filter_context_files_def)

text \<open>
  Claim C2 says that OpenRouter is attempted at most once in a generation call. What the
  inner \<open>catch\<close> of \<open>callCerebras\<close> throws, and what the first call of \<open>callOpenRouter\<close>
  throws when there is no Cerebras key, is caught by the outer \<open>catch\<close>, which calls
  \<open>callOpenRouter\<close> again. With an OpenRouter that fails every request, two requests are
  sent to it: without a Cerebras key, and with a key when the request to Cerebras fails.
\<close>

theorem callCerebras_second_provider_twice:
  "openrouter_requests
     (fst (callCerebras
             (scenario_env None (Failure (str ''HTTP 500'')) (\<lambda>k. Failure (str ''HTTP 503'')) unchanged_patch)
             (scenario_world (str ''print(1)'')) (str ''add a test'') [] (str ''/home/u/x.py'') None []))
     = 2
   \<and> openrouter_requests
     (fst (callCerebras
             (scenario_env (Some (str ''key-1'')) (Failure (str ''HTTP 500'')) (\<lambda>k. Failure (str ''HTTP 503'')) unchanged_patch)
             (scenario_world (str ''print(1)'')) (str ''add a test'') [] (str ''/home/u/x.py'') None []))
     = 2"
  by (simp add: call_defs scenario_defs path_defs falsy_simps str_def starts_with_def Let_def)

text \<open>
  Claim C8 says that a context file denoting the target file is left out of the prompt in
  any path form. The filter compares with \<open>path.resolve\<close>, which does not expand the
  tilde as \<open>readFileContent\<close> does: for the target \<open>/home/u/x.py\<close> and the home directory
  \<open>/home/u\<close>, the context entry \<open>~/x.py\<close> is read from the same path, passes the filter,
  and the prompt holds the file in its context section.
\<close>

theorem context_filter_keeps_home_relative_target:
  "readFileContent_path (scenario_env None (Failure []) (\<lambda>k. Failure []) unchanged_patch) (str ''~/x.py'')
     = readFileContent_path (scenario_env None (Failure []) (\<lambda>k. Failure []) unchanged_patch) (str ''/home/u/x.py'')
   \<and> filter_context_files (scenario_env None (Failure []) (\<lambda>k. Failure []) unchanged_patch)
         (str ''/home/u/x.py'') [str ''~/x.py''] = [str ''~/x.py'']
   \<and> snd (assemble_prompt (scenario_env None (Failure []) (\<lambda>k. Failure []) unchanged_patch)
            (scenario_world (str ''print(1)'')) (str ''add a test'') [] (str ''/home/u/x.py'') None
            [str ''~/x.py''])
       = Inr (str ''Existing file content:\<newline>'' @ fence @ str ''python\<newline>print(1)\<newline>'' @ fence
              @ str ''\<newline>\<newline>Context Files:\<newline>\<newline>File: ~/x.py\<newline>'' @ fence
              @ str ''python\<newline>print(1)\<newline>'' @ fence
              @ str ''\<newline>\<newline>Generate python code for: add a test'')"
  by (simp add: call_defs scenario_defs path_defs falsy_simps str_def starts_with_def fence_def Let_def)

end
